theory Spec2Isabelle
  imports Complex_Main "HOL-Library.Word"
begin

section \<open>Strings and constants of PictionaryWordGenerator.tsx\<close>

text \<open>
  A JavaScript string is a sequence of 16-bit code units. String literals of the source are
  written through \<open>str\<close>, which maps each character to its code unit.
\<close>

type_synonym js_string = "16 word list"

definition str :: "string \<Rightarrow> js_string" where
  "str s = map of_char s"

text \<open>
  Lines 6-9 of the source. The JavaScript numbers that count seconds are integers here: they
  start at 60 and change only to a value of \<open>TIMER_OPTIONS\<close> or by subtracting 1. A
  double is the real number it denotes; the product of line 151 is rounded as the
  multiplication of doubles rounds it (section on doubles below).
\<close>

definition TIMER_DURATION :: int where
  "TIMER_DURATION = 60"

definition TIMER_OPTIONS :: "int list" where
  "TIMER_OPTIONS = [30, 45, 60, 75, 90, 120]"

definition ALL_PLAY_PROBABILITY :: real where
  "ALL_PLAY_PROBABILITY = 0.2"

datatype js_error = SyntaxError | TypeError

section \<open>Doubles\<close>

text \<open>The largest power of two that is not above \<open>x\<close>, for \<open>x\<close> from 1 upwards and
  for \<open>x\<close> between 0 and 1.\<close>

function pow2_up :: "real \<Rightarrow> real" where
  "pow2_up x = (if 2 \<le> x then 2 * pow2_up (x / 2) else 1)"
  by pat_completeness auto
termination pow2_up
proof (relation "measure (\<lambda>x. nat \<lfloor>x\<rfloor>)")
  show "wf (measure (\<lambda>x::real. nat \<lfloor>x\<rfloor>))" by simp
next
  fix x :: real
  assume x: "2 \<le> x"
  have "x / 2 \<le> x - 1" using x by simp
  then have "\<lfloor>x / 2\<rfloor> \<le> \<lfloor>x - 1\<rfloor>" by (rule floor_mono)
  moreover have "2 \<le> \<lfloor>x\<rfloor>" using x by (simp add: le_floor_iff)
  ultimately show "(x / 2, x) \<in> measure (\<lambda>x. nat \<lfloor>x\<rfloor>)" by simp
qed

function pow2_down :: "real \<Rightarrow> real" where
  "pow2_down x = (if 0 < x \<and> x < 1 then pow2_down (2 * x) / 2 else 1)"
  by pat_completeness auto
termination pow2_down
proof (relation "measure (\<lambda>x. nat \<lfloor>1 / x\<rfloor>)")
  show "wf (measure (\<lambda>x::real. nat \<lfloor>1 / x\<rfloor>))" by simp
next
  fix x :: real
  assume x: "0 < x \<and> x < 1"
  let ?y = "1 / x"
  have y: "1 < ?y" using x by simp
  have h: "1 / (2 * x) = ?y / 2" by simp
  have lt: "\<lfloor>?y / 2\<rfloor> < \<lfloor>?y\<rfloor>"
  proof (cases "?y < 2")
    case True
    then have "\<lfloor>?y / 2\<rfloor> < 1" by (simp add: floor_less_iff)
    moreover have "1 \<le> \<lfloor>?y\<rfloor>" using y by (simp add: le_floor_iff)
    ultimately show ?thesis by linarith
  next
    case False
    then have "?y / 2 \<le> ?y - 1" by simp
    then have "\<lfloor>?y / 2\<rfloor> \<le> \<lfloor>?y - 1\<rfloor>" by (rule floor_mono)
    then show ?thesis by simp
  qed
  have pos: "1 \<le> \<lfloor>?y\<rfloor>" using y by (simp add: le_floor_iff)
  show "(2 * x, x) \<in> measure (\<lambda>x. nat \<lfloor>1 / x\<rfloor>)"
    unfolding in_measure h using lt pos by linarith
qed

declare pow2_up.simps [simp del] pow2_down.simps [simp del]

text \<open>
  The power of two at the bottom of the binade of a positive \<open>x\<close>, and the spacing of the
  doubles there: 52 fraction bits below that power, and never finer than in the subnormal
  range.
\<close>

definition binade :: "real \<Rightarrow> real" where
  "binade x = (if 1 \<le> x then pow2_up x else pow2_down x)"

definition ulp :: "real \<Rightarrow> real" where
  "ulp x = max (binade x) (1 / 2 ^ 1022) / 2 ^ 52"

text \<open>Rounding to the nearest integer, ties to the even one.\<close>

definition round_half_even :: "real \<Rightarrow> int" where
  "round_half_even y =
     (if y - of_int \<lfloor>y\<rfloor> < 1 / 2 then \<lfloor>y\<rfloor>
      else if 1 / 2 < y - of_int \<lfloor>y\<rfloor> then \<lfloor>y\<rfloor> + 1
      else if even \<lfloor>y\<rfloor> then \<lfloor>y\<rfloor> else \<lfloor>y\<rfloor> + 1)"

text \<open>
  The double nearest to a real number (round to nearest, ties to even), for magnitudes below
  the overflow threshold; a real is a double when rounding leaves it as it is, and the
  \<open>*\<close> of two doubles is the rounded exact product.
\<close>

definition round_magnitude :: "real \<Rightarrow> real" where
  "round_magnitude x = ulp x * of_int (round_half_even (x / ulp x))"

definition double_round :: "real \<Rightarrow> real" where
  "double_round x = (if x < 0 then - round_magnitude (- x) else round_magnitude x)"

definition is_double :: "real \<Rightarrow> bool" where
  "is_double x = (double_round x = x)"

definition double_times :: "real \<Rightarrow> real \<Rightarrow> real" where
  "double_times x y = double_round (x * y)"

section \<open>Data model\<close>

record CategoryData =
  color :: js_string
  words :: "js_string list"

text \<open>\<open>WORD_CATEGORIES\<close> is imported from \<open>./data/questions.json\<close>; it is a parameter
  of the model, given as the list that \<open>Object.entries\<close> enumerates.\<close>

type_synonym WordCategories = "(js_string \<times> CategoryData) list"

record AvailableWord =
  category :: js_string
  word :: js_string
  word_color :: js_string

text \<open>
  The component's state (the \<open>useState\<close> cells of lines 27-38, without \<open>showSettings\<close>)
  together with what its effects and callbacks act on: the item stored in \<open>localStorage\<close>
  under \<open>STORAGE_KEY\<close>, whether \<open>timerRef\<close> holds a live interval, how often
  \<open>playTimeUpAlert\<close> and \<open>notify\<close> have been called, how many values
  \<open>Math.random\<close> has handed out, and whether the page is a development build: \<open>main.tsx\<close>
  renders the component inside \<open>StrictMode\<close>, under which a development build of React
  runs every updater function twice and a production build once.
\<close>

record app =
  usedWords :: "js_string list"
  currentCategory :: "js_string option"
  currentWord :: "js_string option"
  isAllPlay :: bool
  timerDuration :: int
  timeRemaining :: int
  timerRunning :: bool
  wordRevealed :: bool
  storage :: "js_string option"
  interval :: bool
  alerts :: nat
  toasts :: nat
  random_calls :: nat
  strictDev :: bool

section \<open>Serialising the ledger\<close>

definition hex_digit :: "nat \<Rightarrow> 16 word" where
  "hex_digit n = (if n < 10 then 0x30 + of_nat n else 0x61 + of_nat (n - 10))"

text \<open>\<open>UnicodeEscape\<close>: backslash, \<open>u\<close> and four lower-case hexadecimal digits.\<close>

definition UnicodeEscape :: "16 word \<Rightarrow> js_string" where
  "UnicodeEscape c =
     [0x5C, 0x75,
      hex_digit (unat c div 4096 mod 16), hex_digit (unat c div 256 mod 16),
      hex_digit (unat c div 16 mod 16), hex_digit (unat c mod 16)]"

definition is_leading_surrogate :: "16 word \<Rightarrow> bool" where
  "is_leading_surrogate c = (0xD800 \<le> c \<and> c \<le> 0xDBFF)"

definition is_trailing_surrogate :: "16 word \<Rightarrow> bool" where
  "is_trailing_surrogate c = (0xDC00 \<le> c \<and> c \<le> 0xDFFF)"

text \<open>One code unit that is not half of a surrogate pair, as \<open>QuoteJSONString\<close> writes it.\<close>

definition quote_unit :: "16 word \<Rightarrow> js_string" where
  "quote_unit c =
     (if c = 0x08 then [0x5C, 0x62]
      else if c = 0x09 then [0x5C, 0x74]
      else if c = 0x0A then [0x5C, 0x6E]
      else if c = 0x0C then [0x5C, 0x66]
      else if c = 0x0D then [0x5C, 0x72]
      else if c = 0x22 then [0x5C, 0x22]
      else if c = 0x5C then [0x5C, 0x5C]
      else if c < 0x20 \<or> is_leading_surrogate c \<or> is_trailing_surrogate c then UnicodeEscape c
      else [c])"

fun quote_units :: "js_string \<Rightarrow> js_string" where
  "quote_units [] = []"
| "quote_units [c] = quote_unit c"
| "quote_units (c # d # cs) =
     (if is_leading_surrogate c \<and> is_trailing_surrogate d then c # d # quote_units cs
      else quote_unit c @ quote_units (d # cs))"

definition QuoteJSONString :: "js_string \<Rightarrow> js_string" where
  "QuoteJSONString s = [0x22] @ quote_units s @ [0x22]"

fun join :: "js_string \<Rightarrow> js_string list \<Rightarrow> js_string" where
  "join sep [] = []"
| "join sep [x] = x"
| "join sep (x # y # ys) = x @ sep @ join sep (y # ys)"

text \<open>\<open>JSON.stringify\<close> on an array of strings, without indentation.\<close>

definition JSON_stringify :: "js_string list \<Rightarrow> js_string" where
  "JSON_stringify ws = str ''['' @ join (str '','') (map QuoteJSONString ws) @ str '']''"

section \<open>Reading the ledger: \<open>JSON.parse\<close>\<close>

text \<open>
  \<open>JSON.parse\<close> is a built-in of the platform. It is modelled by a lexer and a
  recursive-descent parser for the JSON grammar over code units. A number keeps the text of
  its literal and an object keeps its members as written; a text that is not derivable from
  the grammar gives \<open>SyntaxError\<close>.
\<close>

datatype json = JNull | JBool bool | JNumber js_string | JString js_string
  | JArray "json list" | JObject "(js_string \<times> json) list"

datatype token = LBRACE | RBRACE | LBRACK | RBRACK | COMMA | COLON
  | STRING js_string | NUMBER js_string | TRUE | FALSE | NULL

text \<open>JSON white space, decimal digits, hexadecimal digits and the one-letter escapes.\<close>

definition is_ws :: "16 word \<Rightarrow> bool" where
  "is_ws c = (c = 0x09 \<or> c = 0x0A \<or> c = 0x0D \<or> c = 0x20)"

definition is_digit :: "16 word \<Rightarrow> bool" where
  "is_digit c = (0x30 \<le> c \<and> c \<le> 0x39)"

definition hex_value :: "16 word \<Rightarrow> nat option" where
  "hex_value c =
     (if is_digit c then Some (unat c - 0x30)
      else if 0x61 \<le> c \<and> c \<le> 0x66 then Some (unat c - 0x61 + 10)
      else if 0x41 \<le> c \<and> c \<le> 0x46 then Some (unat c - 0x41 + 10)
      else None)"

definition escape_char :: "16 word \<Rightarrow> 16 word option" where
  "escape_char e =
     (if e = 0x22 then Some 0x22
      else if e = 0x2F then Some 0x2F
      else if e = 0x5C then Some 0x5C
      else if e = 0x62 then Some 0x08
      else if e = 0x66 then Some 0x0C
      else if e = 0x6E then Some 0x0A
      else if e = 0x72 then Some 0x0D
      else if e = 0x74 then Some 0x09
      else None)"

definition hex4 :: "16 word \<Rightarrow> 16 word \<Rightarrow> 16 word \<Rightarrow> 16 word \<Rightarrow> 16 word option" where
  "hex4 h1 h2 h3 h4 =
     (case (hex_value h1, hex_value h2, hex_value h3, hex_value h4) of
        (Some a, Some b, Some c, Some d) \<Rightarrow> Some (of_nat (((a * 16 + b) * 16 + c) * 16 + d))
      | _ \<Rightarrow> None)"

text \<open>A string after its opening quote: its value and the input after the closing quote.
  Unescaped code units below \<open>0x20\<close> are not allowed.\<close>

fun lex_string :: "js_string \<Rightarrow> (js_string \<times> js_string) option" where
  "lex_string [] = None"
| "lex_string (c # cs) =
     (if c = 0x22 then Some ([], cs)
      else if c = 0x5C then
        (case cs of
           [] \<Rightarrow> None
         | e # es \<Rightarrow>
             if e = 0x75 then
               (case es of
                  h1 # h2 # h3 # h4 # rest \<Rightarrow>
                    (case hex4 h1 h2 h3 h4 of
                       None \<Rightarrow> None
                     | Some u \<Rightarrow> map_option (\<lambda>(s, r). (u # s, r)) (lex_string rest))
                | _ \<Rightarrow> None)
             else
               (case escape_char e of
                  None \<Rightarrow> None
                | Some u \<Rightarrow> map_option (\<lambda>(s, r). (u # s, r)) (lex_string es)))
      else if c < 0x20 then None
      else map_option (\<lambda>(s, r). (c # s, r)) (lex_string cs))"

text \<open>A number is an optional minus sign, an integer part without a leading zero, an
  optional fraction and an optional exponent. Each part returns its text and the rest.\<close>

definition lex_int :: "js_string \<Rightarrow> (js_string \<times> js_string) option" where
  "lex_int cs =
     (case cs of
        [] \<Rightarrow> None
      | d # ds \<Rightarrow>
          if d = 0x30 then Some ([d], ds)
          else if is_digit d then Some (d # takeWhile is_digit ds, dropWhile is_digit ds)
          else None)"

definition lex_frac :: "js_string \<Rightarrow> (js_string \<times> js_string) option" where
  "lex_frac cs =
     (case cs of
        [] \<Rightarrow> Some ([], cs)
      | d # ds \<Rightarrow>
          if d = 0x2E then
            (if takeWhile is_digit ds = [] then None
             else Some (d # takeWhile is_digit ds, dropWhile is_digit ds))
          else Some ([], cs))"

definition lex_sign :: "js_string \<Rightarrow> js_string \<times> js_string" where
  "lex_sign cs =
     (case cs of
        [] \<Rightarrow> ([], cs)
      | x # xs \<Rightarrow> if x = 0x2B \<or> x = 0x2D then ([x], xs) else ([], cs))"

definition lex_exp :: "js_string \<Rightarrow> (js_string \<times> js_string) option" where
  "lex_exp cs =
     (case cs of
        [] \<Rightarrow> Some ([], cs)
      | e # es \<Rightarrow>
          if e = 0x65 \<or> e = 0x45 then
            (case lex_sign es of
               (sign, ds) \<Rightarrow>
                 if takeWhile is_digit ds = [] then None
                 else Some (e # sign @ takeWhile is_digit ds, dropWhile is_digit ds))
          else Some ([], cs))"

definition lex_number :: "js_string \<Rightarrow> (js_string \<times> js_string) option" where
  "lex_number cs =
     (case (case cs of [] \<Rightarrow> ([], cs) | c # cs' \<Rightarrow> if c = 0x2D then ([c], cs') else ([], cs)) of
        (neg, cs1) \<Rightarrow>
          (case lex_int cs1 of
             None \<Rightarrow> None
           | Some (i, cs2) \<Rightarrow>
               (case lex_frac cs2 of
                  None \<Rightarrow> None
                | Some (f, cs3) \<Rightarrow>
                    (case lex_exp cs3 of
                       None \<Rightarrow> None
                     | Some (e, cs4) \<Rightarrow> Some (neg @ i @ f @ e, cs4)))))"

definition strip_prefix :: "js_string \<Rightarrow> js_string \<Rightarrow> js_string option" where
  "strip_prefix p cs = (if take (length p) cs = p then Some (drop (length p) cs) else None)"

text \<open>The tokens of a text; \<open>None\<close> where a code unit starts no token.\<close>

function lex :: "js_string \<Rightarrow> token list option" where
  "lex [] = Some []"
| "lex (c # cs) =
     (if is_ws c then lex cs
      else if c = 0x7B then map_option (Cons LBRACE) (lex cs)
      else if c = 0x7D then map_option (Cons RBRACE) (lex cs)
      else if c = 0x5B then map_option (Cons LBRACK) (lex cs)
      else if c = 0x5D then map_option (Cons RBRACK) (lex cs)
      else if c = 0x2C then map_option (Cons COMMA) (lex cs)
      else if c = 0x3A then map_option (Cons COLON) (lex cs)
      else if c = 0x22 then
        (case lex_string cs of
           None \<Rightarrow> None
         | Some (s, rest) \<Rightarrow> map_option (Cons (STRING s)) (lex rest))
      else if c = 0x2D \<or> is_digit c then
        (case lex_number (c # cs) of
           None \<Rightarrow> None
         | Some (n, rest) \<Rightarrow> map_option (Cons (NUMBER n)) (lex rest))
      else if c = 0x74 then
        (case strip_prefix (str ''rue'') cs of
           None \<Rightarrow> None
         | Some rest \<Rightarrow> map_option (Cons TRUE) (lex rest))
      else if c = 0x66 then
        (case strip_prefix (str ''alse'') cs of
           None \<Rightarrow> None
         | Some rest \<Rightarrow> map_option (Cons FALSE) (lex rest))
      else if c = 0x6E then
        (case strip_prefix (str ''ull'') cs of
           None \<Rightarrow> None
         | Some rest \<Rightarrow> map_option (Cons NULL) (lex rest))
      else None)"
  by pat_completeness auto

lemma lex_string_shorter: "lex_string cs = Some (s, rest) \<Longrightarrow> length rest < length cs"
proof (induction cs arbitrary: s rest rule: lex_string.induct)
  case 1
  then show ?case by simp
next
  case (2 c cs)
  then show ?case
    by (fastforce split: if_splits list.splits option.splits)
qed

lemma lex_number_shorter: "lex_number (c # cs) = Some (n, rest) \<Longrightarrow> length rest \<le> length cs"
proof -
  have dw: "\<And>xs. length (dropWhile is_digit xs) \<le> length xs"
    by (simp add: length_dropWhile_le)
  have i: "\<And>xs a r. lex_int xs = Some (a, r) \<Longrightarrow> length r < length xs"
    using dw by (auto simp: lex_int_def split: list.splits if_splits intro: le_imp_less_Suc)
  have f: "\<And>xs a r. lex_frac xs = Some (a, r) \<Longrightarrow> length r \<le> length xs"
    using dw by (auto simp: lex_frac_def split: list.splits if_splits intro: le_SucI)
  have sg: "\<And>xs a r. lex_sign xs = (a, r) \<Longrightarrow> length r \<le> length xs"
    by (auto simp: lex_sign_def split: list.splits if_splits)
  have e: "\<And>xs a r. lex_exp xs = Some (a, r) \<Longrightarrow> length r \<le> length xs"
  proof -
    fix xs a r assume a: "lex_exp xs = Some (a, r)"
    show "length r \<le> length xs"
    proof (cases xs)
      case Nil
      then show ?thesis using a by (simp add: lex_exp_def)
    next
      case (Cons x es)
      obtain sign ds where sd: "lex_sign es = (sign, ds)" by (cases "lex_sign es")
      have "length (dropWhile is_digit ds) \<le> length ds" by (rule dw)
      also have "length ds \<le> length es" using sg [OF sd] .
      finally have "length (dropWhile is_digit ds) \<le> Suc (length es)" by simp
      then show ?thesis using a Cons sd by (auto simp: lex_exp_def split: if_splits)
    qed
  qed
  assume "lex_number (c # cs) = Some (n, rest)"
  then show ?thesis
    by (auto simp: lex_number_def split: if_splits option.splits prod.splits
        dest!: i f e)
qed

lemma strip_prefix_shorter: "strip_prefix p cs = Some rest \<Longrightarrow> length rest \<le> length cs"
  by (auto simp: strip_prefix_def split: if_splits)

termination lex
proof (relation "measure length")
qed (auto dest: lex_string_shorter lex_number_shorter strip_prefix_shorter)

text \<open>A value; the elements of an array up to its closing bracket; the members of an object
  up to its closing brace. Each returns what it has read and the tokens left.\<close>

function parse_value :: "token list \<Rightarrow> (json \<times> token list) option"
  and parse_elements :: "token list \<Rightarrow> (json list \<times> token list) option"
  and parse_members :: "token list \<Rightarrow> ((js_string \<times> json) list \<times> token list) option"
where
  "parse_value [] = None"
| "parse_value (t # ts) =
     (case t of
        NULL \<Rightarrow> Some (JNull, ts)
      | TRUE \<Rightarrow> Some (JBool True, ts)
      | FALSE \<Rightarrow> Some (JBool False, ts)
      | NUMBER n \<Rightarrow> Some (JNumber n, ts)
      | STRING s \<Rightarrow> Some (JString s, ts)
      | LBRACK \<Rightarrow>
          (case ts of
             RBRACK # rest \<Rightarrow> Some (JArray [], rest)
           | _ \<Rightarrow> map_option (\<lambda>(vs, rest). (JArray vs, rest)) (parse_elements ts))
      | LBRACE \<Rightarrow>
          (case ts of
             RBRACE # rest \<Rightarrow> Some (JObject [], rest)
           | _ \<Rightarrow> map_option (\<lambda>(ms, rest). (JObject ms, rest)) (parse_members ts))
      | _ \<Rightarrow> None)"
| "parse_elements ts =
     (case parse_value ts of
        None \<Rightarrow> None
      | Some (v, rest) \<Rightarrow>
          (case rest of
             COMMA # rest' \<Rightarrow> map_option (\<lambda>(vs, r). (v # vs, r)) (parse_elements rest')
           | RBRACK # rest' \<Rightarrow> Some ([v], rest')
           | _ \<Rightarrow> None))"
| "parse_members ts =
     (case ts of
        STRING k # COLON # ts' \<Rightarrow>
          (case parse_value ts' of
             None \<Rightarrow> None
           | Some (v, rest) \<Rightarrow>
               (case rest of
                  COMMA # rest' \<Rightarrow> map_option (\<lambda>(ms, r). ((k, v) # ms, r)) (parse_members rest')
                | RBRACE # rest' \<Rightarrow> Some ([(k, v)], rest')
                | _ \<Rightarrow> None))
      | _ \<Rightarrow> None)"
  by pat_completeness auto

lemma parse_shorter:
  "parse_value_parse_elements_parse_members_dom (Inl ts) \<Longrightarrow>
     (\<And>v r. parse_value ts = Some (v, r) \<Longrightarrow> length r < length ts)"
  "parse_value_parse_elements_parse_members_dom (Inr (Inl ts1)) \<Longrightarrow>
     (\<And>vs r. parse_elements ts1 = Some (vs, r) \<Longrightarrow> length r < length ts1)"
  "parse_value_parse_elements_parse_members_dom (Inr (Inr ts2)) \<Longrightarrow>
     (\<And>ms r. parse_members ts2 = Some (ms, r) \<Longrightarrow> length r < length ts2)"
proof (induct ts and ts1 and ts2 rule: parse_value_parse_elements_parse_members.pinduct)
  case 1
  then show ?case by (simp add: parse_value.psimps)
next
  case (2 t ts)
  from "2.prems" "2.hyps" show ?case
    by (auto simp: parse_value.psimps split: token.splits list.splits) fastforce+
next
  case (3 ts)
  from "3.prems" "3.hyps" show ?case
    by (auto simp: parse_elements.psimps split: option.splits prod.splits token.splits list.splits)
      fastforce+
next
  case (4 ts)
  from "4.prems" "4.hyps" show ?case
    by (auto simp: parse_members.psimps split: option.splits prod.splits token.splits list.splits)
      fastforce+
qed

termination parse_value
proof (relation "measure (\<lambda>x. case x of Inl ts \<Rightarrow> 2 * length ts
          | Inr (Inl ts) \<Rightarrow> 2 * length ts + 1 | Inr (Inr ts) \<Rightarrow> 2 * length ts + 1)")
qed (auto dest: parse_shorter(1))

text \<open>A JSON text is one value, with no token left behind it.\<close>

definition JSON_parse :: "js_string \<Rightarrow> js_error + json" where
  "JSON_parse text =
     (case lex text of
        None \<Rightarrow> Inl SyntaxError
      | Some ts \<Rightarrow>
          (case parse_value ts of
             Some (v, []) \<Rightarrow> Inr v
           | _ \<Rightarrow> Inl SyntaxError))"

text \<open>Lines 27-30: \<open>saved ? JSON.parse(saved) : []\<close>, where \<open>saved\<close> is \<open>null\<close> when
  the key is missing; \<open>null\<close> and the empty string are falsy. No handler surrounds the call.\<close>

definition usedWords_initializer :: "js_string option \<Rightarrow> js_error + json" where
  "usedWords_initializer saved =
     (case saved of
        None \<Rightarrow> Inr (JArray [])
      | Some text \<Rightarrow> if text = [] then Inr (JArray []) else JSON_parse text)"

text \<open>The tokens of a serialised ledger, between the brackets.\<close>

fun separated :: "js_string list \<Rightarrow> token list" where
  "separated [] = []"
| "separated [w] = [STRING w]"
| "separated (w # v # ws) = STRING w # COMMA # separated (v # ws)"

section \<open>Effects\<close>

text \<open>Lines 45-47: runs after a render in which \<open>usedWords\<close> is a new array.\<close>

definition persist_effect :: "app \<Rightarrow> app" where
  "persist_effect s = s\<lparr>storage := Some (JSON_stringify (usedWords s))\<rparr>"

text \<open>Lines 49-75: runs after a render in which \<open>timerRunning\<close> or \<open>timeRemaining\<close>
  differs from the previous render; the cleanup clears the old interval, the body creates a
  new one under the guard of line 50.\<close>

definition timer_effect :: "app \<Rightarrow> app \<Rightarrow> app" where
  "timer_effect old new =
     (if timerRunning new = timerRunning old \<and> timeRemaining new = timeRemaining old then new
      else new\<lparr>interval := (timerRunning new \<and> timeRemaining new > 0)\<rparr>)"

text \<open>The state after the first render and its effects, in a development or a production
  build, for a ledger \<open>ws\<close> read from storage.\<close>

definition mount :: "bool \<Rightarrow> js_string list \<Rightarrow> app" where
  "mount dev ws =
     \<lparr>usedWords = ws, currentCategory = None, currentWord = None, isAllPlay = False,
      timerDuration = TIMER_DURATION, timeRemaining = TIMER_DURATION, timerRunning = False,
      wordRevealed = False, storage = Some (JSON_stringify ws), interval = False,
      alerts = 0, toasts = 0, random_calls = 0, strictDev = dev\<rparr>"

section \<open>Selector\<close>

definition array_includes :: "js_string list \<Rightarrow> js_string \<Rightarrow> bool" where
  "array_includes xs x = (x \<in> set xs)"

text \<open>Lines 128-138: two nested \<open>forEach\<close> loops pushing onto \<open>available\<close>.\<close>

definition getAvailableWords :: "WordCategories \<Rightarrow> app \<Rightarrow> AvailableWord list" where
  "getAvailableWords pool s =
     foldl (\<lambda>available (categoryKey, categoryData).
              foldl (\<lambda>available w.
                       if \<not> array_includes (usedWords s) w
                       then available @ [\<lparr>category = categoryKey, word = w,
                                           word_color = color categoryData\<rparr>]
                       else available)
                    available (words categoryData))
           [] pool"

section \<open>Handlers\<close>

text \<open>JavaScript truthiness of a \<open>string | null\<close>.\<close>

definition truthy :: "js_string option \<Rightarrow> bool" where
  "truthy w = (w \<noteq> None \<and> w \<noteq> Some [])"

definition resetGame :: "app \<Rightarrow> app" where
  "resetGame s =
     timer_effect s (persist_effect
       (s\<lparr>usedWords := [], currentCategory := None, currentWord := None, isAllPlay := False,
          timeRemaining := timerDuration s, timerRunning := False, wordRevealed := False,
          storage := None\<rparr>))"

text \<open>
  Lines 140-161. \<open>rng\<close> is the sequence of values \<open>Math.random()\<close> returns and
  \<open>shouldReset\<close> the answer to \<open>window.confirm\<close>. The index is the floor of the
  product of two doubles. Reading \<open>available\<close> outside its bounds gives \<open>undefined\<close>,
  whose \<open>category\<close> cannot be read.
\<close>

definition selectRandomWord :: "WordCategories \<Rightarrow> (nat \<Rightarrow> real) \<Rightarrow> bool \<Rightarrow> app \<Rightarrow> js_error + app" where
  "selectRandomWord pool rng shouldReset s =
     (let available = getAvailableWords pool s in
      if length available = 0 then Inr (if shouldReset then resetGame s else s)
      else
        let i = \<lfloor>double_times (rng (random_calls s)) (real (length available))\<rfloor> in
        if i < 0 \<or> int (length available) \<le> i then Inl TypeError
        else
          let selected = available ! nat i;
              forced = (category selected = str ''random'');
              shouldBeAllPlay =
                (if forced then True else rng (random_calls s + 1) < ALL_PLAY_PROBABILITY)
          in Inr (timer_effect s (persist_effect
               (s\<lparr>currentCategory := Some (category selected),
                  currentWord := Some (word selected),
                  isAllPlay := shouldBeAllPlay,
                  usedWords := usedWords s @ [word selected],
                  timeRemaining := timerDuration s,
                  timerRunning := False,
                  wordRevealed := False,
                  random_calls := random_calls s + (if forced then 1 else 2)\<rparr>))))"

definition startTimer :: "app \<Rightarrow> app" where
  "startTimer s = (if truthy (currentWord s) then timer_effect s (s\<lparr>timerRunning := True\<rparr>) else s)"

definition stopTimer :: "app \<Rightarrow> app" where
  "stopTimer s = timer_effect s (s\<lparr>timerRunning := False\<rparr>)"

definition restartTimer :: "app \<Rightarrow> app" where
  "restartTimer s = timer_effect s (s\<lparr>timeRemaining := timerDuration s, timerRunning := True\<rparr>)"

definition changeTimerDuration :: "int \<Rightarrow> app \<Rightarrow> app" where
  "changeTimerDuration duration s =
     timer_effect s (s\<lparr>timerDuration := duration, timeRemaining := duration, timerRunning := False\<rparr>)"

definition handleWordBoxInteraction :: "app \<Rightarrow> app" where
  "handleWordBoxInteraction s = s\<lparr>wordRevealed := True\<rparr>"

definition handleWordBoxRelease :: "app \<Rightarrow> app" where
  "handleWordBoxRelease s = s\<lparr>wordRevealed := False\<rparr>"

text \<open>
  Lines 51-63: the interval's callback, followed by the render it causes. The calls of
  \<open>playTimeUpAlert\<close> and \<open>notify\<close> sit inside the updater passed to
  \<open>setTimeRemaining\<close>, so they happen once for each run of the updater: twice in a
  development build, once in a production build. Both runs see the same \<open>prev\<close> and
  return the same value. A handler, the render it causes and the effects of that render form
  one step.
\<close>

definition tick :: "app \<Rightarrow> app" where
  "tick s =
     timer_effect s
       (if timeRemaining s \<le> 1
        then s\<lparr>timerRunning := False,
               alerts := alerts s + (if strictDev s then 2 else 1),
               toasts := toasts s + (if strictDev s then 2 else 1),
               timeRemaining := 0\<rparr>
        else s\<lparr>timeRemaining := timeRemaining s - 1\<rparr>)"

section \<open>Sequences of intents\<close>

text \<open>
  The intents the presentation shell routes to the handlers, and the interval's callback.
  \<open>dispatch\<close> is \<open>None\<close> where the intent cannot occur: the callback fires only
  while an interval is live, the settings dialog offers only \<open>TIMER_OPTIONS\<close>, and a
  handler that throws leaves no new state. The buttons' \<open>disabled\<close> attributes are not
  taken into account, so every handler may run in every state.
\<close>

datatype intent = SelectWord bool | Start | Stop | Restart | ChangeDuration int | Tick | Reset
  | Reveal | Unreveal

fun dispatch :: "WordCategories \<Rightarrow> (nat \<Rightarrow> real) \<Rightarrow> intent \<Rightarrow> app \<Rightarrow> app option" where
  "dispatch pool rng (SelectWord shouldReset) s =
     (case selectRandomWord pool rng shouldReset s of Inl e \<Rightarrow> None | Inr s' \<Rightarrow> Some s')"
| "dispatch pool rng Start s = Some (startTimer s)"
| "dispatch pool rng Stop s = Some (stopTimer s)"
| "dispatch pool rng Restart s = Some (restartTimer s)"
| "dispatch pool rng (ChangeDuration d) s =
     (if d \<in> set TIMER_OPTIONS then Some (changeTimerDuration d s) else None)"
| "dispatch pool rng Tick s = (if interval s then Some (tick s) else None)"
| "dispatch pool rng Reset s = Some (resetGame s)"
| "dispatch pool rng Reveal s = Some (handleWordBoxInteraction s)"
| "dispatch pool rng Unreveal s = Some (handleWordBoxRelease s)"

fun run :: "WordCategories \<Rightarrow> (nat \<Rightarrow> real) \<Rightarrow> intent list \<Rightarrow> app \<Rightarrow> app option" where
  "run pool rng [] s = Some s"
| "run pool rng (a # as) s =
     (case dispatch pool rng a s of None \<Rightarrow> None | Some s' \<Rightarrow> run pool rng as s')"

text \<open>\<open>n\<close> firings of the interval's callback in a row; \<open>None\<close> if one of them finds no
  live interval.\<close>

fun run_ticks :: "nat \<Rightarrow> app \<Rightarrow> app option" where
  "run_ticks 0 s = Some s"
| "run_ticks (Suc n) s = (if interval s then run_ticks n (tick s) else None)"

definition timer_inv :: "app \<Rightarrow> bool" where
  "timer_inv s =
     (0 \<le> timeRemaining s \<and> timeRemaining s \<le> timerDuration s \<and>
      interval s = (timerRunning s \<and> 0 < timeRemaining s))"

section \<open>The eligible set as the specification words it\<close>

text \<open>The (category, word) pairs of the pool, and those whose word is not in the ledger.\<close>

definition pool_pairs :: "WordCategories \<Rightarrow> (js_string \<times> js_string) set" where
  "pool_pairs pool = set (concat (map (\<lambda>(c, d). map (Pair c) (words d)) pool))"

definition spec_eligible :: "WordCategories \<Rightarrow> js_string list \<Rightarrow> (js_string \<times> js_string) set" where
  "spec_eligible pool ledger = {p \<in> pool_pairs pool. snd p \<notin> set ledger}"

definition pair_of :: "AvailableWord \<Rightarrow> js_string \<times> js_string" where
  "pair_of a = (category a, word a)"

section \<open>Sample data\<close>

definition sample_pool :: WordCategories where
  "sample_pool = [(str ''animals'', \<lparr>color = str ''blue'', words = [str ''cat'', str ''dog'']\<rparr>)]"

definition random_pool :: WordCategories where
  "random_pool = [(str ''random'', \<lparr>color = str ''red'', words = [str ''wild'']\<rparr>)]"

definition seven_pool :: WordCategories where
  "seven_pool =
     [(str ''animals'', \<lparr>color = str ''blue'',
        words = [str ''ant'', str ''bee'', str ''cat'', str ''dog'', str ''eel'', str ''fox'',
                 str ''gnu'']\<rparr>)]"

definition half_rng :: "nat \<Rightarrow> real" where
  "half_rng k = 1 / 2"

definition low_rng :: "nat \<Rightarrow> real" where
  "low_rng k = (if k = 0 then 1 / 2 else 1 / 8)"

text \<open>The double written \<open>0.5714285714285714\<close>: its exact product with 7 is below 4, and
  rounds to 4.\<close>

definition rounding_rng :: "nat \<Rightarrow> real" where
  "rounding_rng k = 2573485501354569 / 4503599627370496"

text \<open>The state after the first selection on \<open>sample_pool\<close> with \<open>half_rng\<close> in a
  production build, and the state after its timer ran out.\<close>

definition ready_state :: app where
  "ready_state =
     \<lparr>usedWords = [str ''dog''], currentCategory = Some (str ''animals''),
      currentWord = Some (str ''dog''), isAllPlay = False,
      timerDuration = 60, timeRemaining = 60, timerRunning = False,
      wordRevealed = False, storage = Some (JSON_stringify [str ''dog'']), interval = False,
      alerts = 0, toasts = 0, random_calls = 2, strictDev = False\<rparr>"

definition expired_state :: app where
  "expired_state = ready_state\<lparr>timeRemaining := 0, alerts := 1, toasts := 1\<rparr>"

definition used_up_state :: app where
  "used_up_state = mount False [str ''cat'', str ''dog'']"

text \<open>The same first selection in a development build, and the state 59 seconds after its
  timer was started.\<close>

definition dev_ready_state :: app where
  "dev_ready_state = ready_state\<lparr>strictDev := True\<rparr>"

definition dev_last_second :: app where
  "dev_last_second = dev_ready_state\<lparr>timeRemaining := 1, timerRunning := True, interval := True\<rparr>"

section \<open>Evaluation of the sample data\<close>

lemmas double_defs =
  double_times_def is_double_def double_round_def round_magnitude_def round_half_even_def
  ulp_def binade_def pow2_up.simps pow2_down.simps

lemmas sample_defs =
  sample_pool_def random_pool_def seven_pool_def half_rng_def low_rng_def rounding_rng_def
  ready_state_def expired_state_def used_up_state_def dev_ready_state_def dev_last_second_def
  mount_def str_def TIMER_DURATION_def ALL_PLAY_PROBABILITY_def
  JSON_stringify_def QuoteJSONString_def quote_unit_def is_leading_surrogate_def
  is_trailing_surrogate_def

lemmas handler_defs =
  selectRandomWord_def getAvailableWords_def array_includes_def resetGame_def startTimer_def
  stopTimer_def restartTimer_def changeTimerDuration_def tick_def truthy_def timer_effect_def
  persist_effect_def Let_def

lemma sample_draws_are_doubles:
  "is_double (half_rng k)" "0 \<le> half_rng k" "half_rng k < 1"
  "is_double (low_rng k)" "0 \<le> low_rng k" "low_rng k < 1"
  "is_double (rounding_rng k)" "0 \<le> rounding_rng k" "rounding_rng k < 1"
  by (simp_all add: half_rng_def low_rng_def rounding_rng_def double_defs)

text \<open>With seven eligible words the rounded product of \<open>rounding_rng\<close> is 4, where the
  exact product has floor 3.\<close>

lemma rounded_product_example:
  "\<lfloor>double_times (rounding_rng k) 7\<rfloor> = 4" "\<lfloor>rounding_rng k * 7\<rfloor> = 3"
  by (simp_all add: rounding_rng_def double_defs)

lemma ready_state_reached:
  "selectRandomWord sample_pool half_rng False (mount False []) = Inr ready_state"
  by (simp add: sample_defs handler_defs double_defs)

lemma expired_state_reached:
  "run_ticks 60 (startTimer ready_state) = Some expired_state"
  by code_simp

lemma dev_ready_state_reached:
  "selectRandomWord sample_pool half_rng False (mount True []) = Inr dev_ready_state"
  by (simp add: sample_defs handler_defs double_defs)

lemma dev_last_second_reached:
  "run_ticks 59 (startTimer dev_ready_state) = Some dev_last_second"
  by code_simp

section \<open>Timer controls\<close>

text \<open>
  C1, as the code has it. \<open>startTimer\<close> tests only that a word is selected (line 164), so
  with a word selected and Time-Remaining 0 it sets Timer Running to true; it changes nothing
  else. The remaining time stays 0 and, the guard of line 50 being false, no interval is
  created: the countdown does not restart.
\<close>

theorem startTimer_at_zero_sets_running:
  assumes "truthy (currentWord s)" and "timeRemaining s = 0" and "\<not> interval s"
  shows "startTimer s = s\<lparr>timerRunning := True\<rparr>"
  using assms by (simp add: startTimer_def timer_effect_def)

theorem startTimer_at_zero_sets_running_witness:
  "truthy (currentWord expired_state) \<and> timeRemaining expired_state = 0 \<and>
   \<not> interval expired_state \<and>
   startTimer expired_state = expired_state\<lparr>timerRunning := True\<rparr>"
proof -
  have h: "truthy (currentWord expired_state)" "timeRemaining expired_state = 0"
    "\<not> interval expired_state"
    by (simp_all add: sample_defs truthy_def)
  from startTimer_at_zero_sets_running [OF h] h show ?thesis by simp
qed

text \<open>
  C1 as stated fails: in the state reached when the timer of the first word has run out, a
  word is selected and Time-Remaining is 0, yet \<open>startTimer\<close> turns Timer Running from
  false to true.
\<close>

theorem startTimer_at_zero_not_noop:
  "truthy (currentWord expired_state) \<and> timeRemaining expired_state = 0 \<and>
   \<not> timerRunning expired_state \<and> timerRunning (startTimer expired_state) \<and>
   startTimer expired_state \<noteq> expired_state"
proof -
  have a: "timerRunning (startTimer expired_state)"
    by (simp add: sample_defs handler_defs)
  have b: "\<not> timerRunning expired_state"
    by (simp add: sample_defs)
  from a b have "startTimer expired_state \<noteq> expired_state" by metis
  with a b show ?thesis by (simp add: sample_defs truthy_def)
qed

text \<open>
  C8. \<open>restartTimer\<close> sets Time-Remaining to the current Duration and Timer Running to
  true in every state, whatever the timer was doing before (so in particular whenever a word
  is selected); the Duration is not changed.
\<close>

theorem restartTimer_running_full:
  "timeRemaining (restartTimer s) = timerDuration s \<and> timerRunning (restartTimer s) \<and>
   timerDuration (restartTimer s) = timerDuration s"
  by (simp add: restartTimer_def timer_effect_def)

text \<open>
  C9. \<open>resetGame\<close> empties the ledger in memory; in storage, the item is removed by the
  handler and then written by the persistence effect as the serialisation of the empty
  ledger, from which the next start reads an empty ledger. Category and Word are null,
  All-Play, Timer Running and Word Revealed are false, Time-Remaining is the Duration, and
  the Duration is as before.
\<close>

theorem resetGame_idle_empty_ledger:
  "usedWords (resetGame s) = [] \<and>
   storage (resetGame s) = Some (str ''[]'') \<and>
   usedWords_initializer (storage (resetGame s)) = Inr (JArray []) \<and>
   currentCategory (resetGame s) = None \<and> currentWord (resetGame s) = None \<and>
   \<not> isAllPlay (resetGame s) \<and> \<not> timerRunning (resetGame s) \<and>
   \<not> wordRevealed (resetGame s) \<and>
   timeRemaining (resetGame s) = timerDuration s \<and>
   timerDuration (resetGame s) = timerDuration s"
proof -
  have "JSON_parse (str ''[]'') = Inr (JArray [])"
    by (simp add: JSON_parse_def str_def is_ws_def)
  then show ?thesis
    by (simp add: resetGame_def timer_effect_def persist_effect_def JSON_stringify_def
        usedWords_initializer_def str_def)
qed

section \<open>Properties of the selector\<close>

lemma push_loop:
  "foldl (\<lambda>available w. if \<not> array_includes used w then available @ [f w] else available) acc ws
     = acc @ map f (filter (\<lambda>w. w \<notin> set used) ws)"
  by (induction ws arbitrary: acc) (simp_all add: array_includes_def)

lemma category_loop:
  "foldl (\<lambda>available (categoryKey, categoryData).
              foldl (\<lambda>available w.
                       if \<not> array_includes used w
                       then available @ [\<lparr>category = categoryKey, word = w,
                                           word_color = color categoryData\<rparr>]
                       else available)
                    available (words categoryData)) acc pool
   = acc @ concat (map (\<lambda>(c, d). map (\<lambda>w. \<lparr>category = c, word = w, word_color = color d\<rparr>)
                                      (filter (\<lambda>w. w \<notin> set used) (words d))) pool)"
proof (induction pool arbitrary: acc)
  case Nil
  show ?case by simp
next
  case (Cons p pool)
  obtain c d where p: "p = (c, d)" by (cases p)
  show ?case unfolding p using Cons.IH by (simp add: push_loop)
qed

lemma getAvailableWords_concat:
  "getAvailableWords pool s =
     concat (map (\<lambda>(c, d). map (\<lambda>w. \<lparr>category = c, word = w, word_color = color d\<rparr>)
                               (filter (\<lambda>w. w \<notin> set (usedWords s)) (words d))) pool)"
  unfolding getAvailableWords_def by (simp add: category_loop)

lemma eligible_set:
  "pair_of ` set (getAvailableWords pool s) = spec_eligible pool (usedWords s)"
  unfolding getAvailableWords_concat spec_eligible_def pool_pairs_def pair_of_def
  by (auto simp: image_iff) force+

lemma pow2_up_bounds: "0 < pow2_up x \<and> (1 \<le> x \<longrightarrow> pow2_up x \<le> x)"
proof (induction x rule: pow2_up.induct)
  case (1 x)
  show ?case
  proof (cases "2 \<le> x")
    case True
    with 1 have "0 < pow2_up (x / 2)" "pow2_up (x / 2) \<le> x / 2" by simp_all
    then show ?thesis using True by (simp add: pow2_up.simps [of x])
  next
    case False
    then show ?thesis by (simp add: pow2_up.simps [of x])
  qed
qed

lemma pow2_down_bounds: "0 < pow2_down x \<and> (0 < x \<and> x < 1 \<longrightarrow> pow2_down x \<le> x)"
proof (induction x rule: pow2_down.induct)
  case (1 x)
  show ?case
  proof (cases "0 < x \<and> x < 1")
    case True
    with 1 have ih: "0 < pow2_down (2 * x)"
      "0 < 2 * x \<and> 2 * x < 1 \<longrightarrow> pow2_down (2 * x) \<le> 2 * x" by simp_all
    have e: "pow2_down x = pow2_down (2 * x) / 2"
      using True by (simp add: pow2_down.simps [of x])
    show ?thesis
    proof (cases "2 * x < 1")
      case True
      with ih \<open>0 < x \<and> x < 1\<close> show ?thesis unfolding e by simp
    next
      case False
      then have "pow2_down (2 * x) = 1" by (simp add: pow2_down.simps [of "2 * x"])
      with False \<open>0 < x \<and> x < 1\<close> show ?thesis unfolding e by simp
    qed
  next
    case False
    then have "pow2_down x = 1" by (simp only: pow2_down.simps [of x] if_False)
    with False show ?thesis by simp
  qed
qed

lemma binade_bounds: "0 < binade x \<and> (0 < x \<longrightarrow> binade x \<le> x)"
  using pow2_up_bounds [of x] pow2_down_bounds [of x] by (simp add: binade_def)

lemma ulp_pos: "0 < ulp x"
  using binade_bounds [of x] by (simp add: ulp_def)

lemma round_half_even_bounds:
  "of_int (round_half_even y) \<le> y + 1 / 2 \<and> (0 \<le> y \<longrightarrow> 0 \<le> round_half_even y)"
proof -
  have a: "real_of_int \<lfloor>y\<rfloor> \<le> y" by (rule of_int_floor_le)
  have b: "0 \<le> y \<Longrightarrow> 0 \<le> \<lfloor>y\<rfloor>" by simp
  have "real_of_int (round_half_even y) \<le> y + 1 / 2"
  proof (cases "y - of_int \<lfloor>y\<rfloor> < 1 / 2")
    case True
    then have "round_half_even y = \<lfloor>y\<rfloor>" by (simp add: round_half_even_def)
    then show ?thesis using a by linarith
  next
    case False
    then have up: "real_of_int (\<lfloor>y\<rfloor> + 1) \<le> y + 1 / 2" by simp
    have "round_half_even y = \<lfloor>y\<rfloor> \<or> round_half_even y = \<lfloor>y\<rfloor> + 1"
      by (simp add: round_half_even_def)
    then show ?thesis
    proof
      assume e: "round_half_even y = \<lfloor>y\<rfloor>"
      show ?thesis unfolding e using a by linarith
    next
      assume e: "round_half_even y = \<lfloor>y\<rfloor> + 1"
      show ?thesis unfolding e using up .
    qed
  qed
  moreover have "0 \<le> round_half_even y" if "0 \<le> y"
  proof -
    have "round_half_even y = \<lfloor>y\<rfloor> \<or> round_half_even y = \<lfloor>y\<rfloor> + 1"
      by (simp add: round_half_even_def)
    then show ?thesis using b [OF that] by auto
  qed
  ultimately show ?thesis by simp
qed

lemma round_magnitude_bounds:
  assumes "0 \<le> x"
  shows "0 \<le> round_magnitude x" and "round_magnitude x \<le> x + ulp x / 2"
proof -
  let ?u = "ulp x"
  have u: "0 < ?u" by (rule ulp_pos)
  then have q: "0 \<le> x / ?u" using assms by simp
  have "0 \<le> round_half_even (x / ?u)" using round_half_even_bounds [of "x / ?u"] q by simp
  then show "0 \<le> round_magnitude x" using u by (simp add: round_magnitude_def)
  have "of_int (round_half_even (x / ?u)) \<le> x / ?u + 1 / 2"
    using round_half_even_bounds [of "x / ?u"] by simp
  then have "?u * of_int (round_half_even (x / ?u)) \<le> ?u * (x / ?u + 1 / 2)"
    using u by (simp only: mult_le_cancel_left_pos)
  also have "\<dots> = x + ?u / 2" using u by (simp add: algebra_simps)
  finally show "round_magnitude x \<le> x + ulp x / 2" by (simp add: round_magnitude_def)
qed

lemma double_times_below:
  assumes r: "0 \<le> r" "r \<le> 1 - 1 / 2 ^ 53" and n: "0 < n"
  shows "0 \<le> double_times r (real n)" and "double_times r (real n) < real n"
proof -
  let ?x = "r * real n"
  define c :: real where "c = 1 / 2 ^ 53"
  have c: "0 < c" by (simp add: c_def)
  have rc: "r \<le> 1 - c" using r(2) by (simp only: c_def)
  have x0: "0 \<le> ?x" using r by simp
  have dt: "double_times r (real n) = round_magnitude ?x"
    using x0 by (simp add: double_times_def double_round_def)
  show "0 \<le> double_times r (real n)" unfolding dt using x0 by (rule round_magnitude_bounds)
  have n0: "0 < real n" using n by simp
  have n1: "1 \<le> real n" using n by simp
  have "r * real n \<le> (1 - c) * real n" using rc n0 by (simp only: mult_le_cancel_right_pos)
  then have xn: "?x \<le> real n - real n * c" by (simp add: algebra_simps)
  show "double_times r (real n) < real n"
  proof (cases "0 < ?x")
    case False
    then have z: "?x = 0" using x0 by simp
    have "round_magnitude 0 = 0" by (simp add: round_magnitude_def round_half_even_def)
    then show ?thesis unfolding dt z using n by simp
  next
    case True
    then have "binade ?x \<le> ?x" using binade_bounds [of ?x] by simp
    moreover have "0 < real n * c" using n0 c by simp
    ultimately have b: "binade ?x < real n" using xn by linarith
    have "(1::real) / 2 ^ 1022 < 1" by simp
    then have m: "max (binade ?x) (1 / 2 ^ 1022) < real n" using b n1 by simp
    have "ulp ?x / 2 = max (binade ?x) (1 / 2 ^ 1022) * c"
      by (simp add: ulp_def c_def)
    also have "\<dots> < real n * c" using m c by (simp only: mult_less_cancel_right_pos)
    finally have u: "ulp ?x / 2 < real n * c" .
    have "round_magnitude ?x \<le> ?x + ulp ?x / 2" using x0 by (rule round_magnitude_bounds)
    then show ?thesis unfolding dt using u xn by linarith
  qed
qed

lemma double_below_one:
  assumes "is_double r" and "0 \<le> r" and "r < 1"
  shows "r \<le> 1 - 1 / 2 ^ 53"
proof (cases "r < 1 / 2")
  case True
  have "(1::real) / 2 \<le> 1 - 1 / 2 ^ 53" by simp
  with True show ?thesis by linarith
next
  case False
  then have h: "1 / 2 \<le> r" by simp
  define c :: real where "c = 1 / 2 ^ 53"
  define k where "k = round_half_even (r / c)"
  have "pow2_down (2 * r) = 1" using h by (simp add: pow2_down.simps [of "2 * r"])
  then have "pow2_down r = 1 / 2" using h assms(3) by (simp add: pow2_down.simps [of r])
  then have "binade r = 1 / 2" using assms(3) by (simp add: binade_def)
  then have u: "ulp r = c" by (simp add: ulp_def c_def)
  have "round_magnitude r = r"
    using assms(1,2) by (simp add: is_double_def double_round_def)
  then have rk: "r = c * of_int k"
    unfolding round_magnitude_def k_def [symmetric] u by simp
  have "c * of_int k < c * 2 ^ 53" using assms(3) rk by (simp add: c_def)
  moreover have c: "0 < c" by (simp add: c_def)
  ultimately have "real_of_int k < 2 ^ 53" by (simp only: mult_less_cancel_left_pos)
  then have "real_of_int k < real_of_int (2 ^ 53)" by simp
  then have "k < 2 ^ 53" by (simp only: of_int_less_iff)
  then have "k \<le> 2 ^ 53 - 1" by simp
  then have "real_of_int k \<le> real_of_int (2 ^ 53 - 1)" by (simp only: of_int_le_iff)
  then have "real_of_int k \<le> 2 ^ 53 - 1" by simp
  then have "c * real_of_int k \<le> c * (2 ^ 53 - 1)" using c by (simp only: mult_le_cancel_left_pos)
  also have "\<dots> = 1 - c" by (simp add: c_def algebra_simps)
  finally have "r \<le> 1 - c" unfolding rk [symmetric] .
  then show ?thesis unfolding c_def .
qed

lemma double_index_in_range:
  assumes "is_double r" and "0 \<le> r" and "r < 1" and "0 < n"
  shows "0 \<le> \<lfloor>double_times r (real n)\<rfloor> \<and> \<lfloor>double_times r (real n)\<rfloor> < int n"
proof -
  have b: "r \<le> 1 - 1 / 2 ^ 53" using assms(1-3) by (rule double_below_one)
  have "0 \<le> double_times r (real n)" "double_times r (real n) < real n"
    using double_times_below [OF assms(2) b assms(4)] by simp_all
  then show ?thesis by (simp add: floor_less_iff)
qed

text \<open>
  The literal \<open>0.2\<close> of line 9 denotes the double nearest to 0.2. For a draw that is a
  double, comparing with that double and comparing with the real number 0.2 give the same
  result, so \<open>ALL_PLAY_PROBABILITY\<close> stands for either.
\<close>

lemma double_fifth: "double_round 0.2 = 7205759403792794 / 2 ^ 55"
  by (simp add: double_defs)

lemma all_play_threshold:
  assumes "is_double r"
  shows "(r < double_round 0.2) = (r < ALL_PLAY_PROBABILITY)"
  unfolding ALL_PLAY_PROBABILITY_def
proof
  assume "r < 0.2"
  moreover have "(0.2::real) < double_round 0.2" unfolding double_fifth by simp
  ultimately show "r < double_round 0.2" by linarith
next
  assume lt: "r < double_round 0.2"
  show "r < 0.2"
  proof (rule ccontr)
    assume "\<not> r < 0.2"
    then have ge: "1 / 5 \<le> r" by simp
    define c :: real where "c = 1 / 2 ^ 55"
    define k where "k = round_half_even (r / c)"
    have c: "0 < c" by (simp add: c_def)
    have up: "r < 1 / 4" using lt unfolding double_fifth by simp
    have "pow2_down (8 * r) = 1" using ge by (simp add: pow2_down.simps [of "8 * r"])
    then have "pow2_down (4 * r) = 1 / 2" using ge up by (simp add: pow2_down.simps [of "4 * r"])
    then have "pow2_down (2 * r) = 1 / 4" using ge up by (simp add: pow2_down.simps [of "2 * r"])
    then have "pow2_down r = 1 / 8" using ge up by (simp add: pow2_down.simps [of r])
    then have "binade r = 1 / 8" using up by (simp add: binade_def)
    then have u: "ulp r = c" by (simp add: ulp_def c_def)
    have "round_magnitude r = r"
      using assms ge by (simp add: is_double_def double_round_def)
    then have rk: "r = c * of_int k"
      unfolding round_magnitude_def k_def [symmetric] u by simp
    have "c * of_int k < c * 7205759403792794" using lt rk unfolding double_fifth c_def by simp
    then have "real_of_int k < real_of_int 7205759403792794"
      using c by (simp only: mult_less_cancel_left_pos of_int_numeral)
    then have k1: "k < 7205759403792794" by (simp only: of_int_less_iff)
    have "c * (2 ^ 55 / 5) \<le> c * of_int k" using ge rk by (simp add: c_def)
    then have "(2::real) ^ 55 / 5 \<le> of_int k" using c by (simp only: mult_le_cancel_left_pos)
    then have "real_of_int 36028797018963968 \<le> real_of_int (5 * k)" by simp
    then have "36028797018963968 \<le> 5 * k" by (simp only: of_int_le_iff)
    with k1 show False by linarith
  qed
qed

lemma select_exhausted:
  "getAvailableWords pool s = [] \<Longrightarrow>
     selectRandomWord pool rng shouldReset s = Inr (if shouldReset then resetGame s else s)"
  by (simp add: selectRandomWord_def)

lemma random_calls_resetGame: "random_calls (resetGame s) = random_calls s"
  by (simp add: resetGame_def timer_effect_def persist_effect_def)

lemma select_shape:
  assumes ne: "getAvailableWords pool s \<noteq> []"
    and ok: "selectRandomWord pool rng shouldReset s = Inr s'"
  shows "\<exists>sel. sel \<in> set (getAvailableWords pool s) \<and>
           s' = timer_effect s (persist_effect
               (s\<lparr>currentCategory := Some (category sel),
                  currentWord := Some (word sel),
                  isAllPlay := (if category sel = str ''random'' then True
                                else rng (random_calls s + 1) < ALL_PLAY_PROBABILITY),
                  usedWords := usedWords s @ [word sel],
                  timeRemaining := timerDuration s,
                  timerRunning := False,
                  wordRevealed := False,
                  random_calls := random_calls s + (if category sel = str ''random'' then 1 else 2)\<rparr>))"
proof -
  let ?av = "getAvailableWords pool s"
  let ?i = "\<lfloor>double_times (rng (random_calls s)) (real (length ?av))\<rfloor>"
  have r: "\<not> (?i < 0 \<or> int (length ?av) \<le> ?i)"
    using ok ne unfolding selectRandomWord_def Let_def by (auto split: if_splits)
  then have "nat ?i < length ?av" by linarith
  then have m: "?av ! nat ?i \<in> set ?av" by simp
  have "s' = timer_effect s (persist_effect
               (s\<lparr>currentCategory := Some (category (?av ! nat ?i)),
                  currentWord := Some (word (?av ! nat ?i)),
                  isAllPlay := (if category (?av ! nat ?i) = str ''random'' then True
                                else rng (random_calls s + 1) < ALL_PLAY_PROBABILITY),
                  usedWords := usedWords s @ [word (?av ! nat ?i)],
                  timeRemaining := timerDuration s,
                  timerRunning := False,
                  wordRevealed := False,
                  random_calls := random_calls s +
                    (if category (?av ! nat ?i) = str ''random'' then 1 else 2)\<rparr>))"
    using ok ne r unfolding selectRandomWord_def Let_def by (simp split: if_splits)
  with m show ?thesis by blast
qed

lemma select_fields:
  assumes "getAvailableWords pool s \<noteq> []"
    and "selectRandomWord pool rng shouldReset s = Inr s'"
  shows "\<exists>sel. sel \<in> set (getAvailableWords pool s) \<and>
           currentCategory s' = Some (category sel) \<and> currentWord s' = Some (word sel) \<and>
           isAllPlay s' = (if category sel = str ''random'' then True
                           else rng (random_calls s + 1) < ALL_PLAY_PROBABILITY) \<and>
           random_calls s' = random_calls s + (if category sel = str ''random'' then 1 else 2) \<and>
           timeRemaining s' = timerDuration s \<and> timerDuration s' = timerDuration s \<and>
           \<not> timerRunning s' \<and> \<not> wordRevealed s' \<and>
           usedWords s' = usedWords s @ [word sel] \<and>
           storage s' = Some (JSON_stringify (usedWords s @ [word sel]))"
proof -
  from select_shape [OF assms] obtain sel where m: "sel \<in> set (getAvailableWords pool s)"
    and e: "s' = timer_effect s (persist_effect
               (s\<lparr>currentCategory := Some (category sel),
                  currentWord := Some (word sel),
                  isAllPlay := (if category sel = str ''random'' then True
                                else rng (random_calls s + 1) < ALL_PLAY_PROBABILITY),
                  usedWords := usedWords s @ [word sel],
                  timeRemaining := timerDuration s,
                  timerRunning := False,
                  wordRevealed := False,
                  random_calls := random_calls s + (if category sel = str ''random'' then 1 else 2)\<rparr>))"
    by blast
  show ?thesis
    by (rule exI [of _ sel]) (simp add: m e timer_effect_def persist_effect_def)
qed

lemma select_succeeds:
  assumes ne: "getAvailableWords pool s \<noteq> []"
    and d: "is_double (rng (random_calls s))"
    and lo: "0 \<le> rng (random_calls s)" and hi: "rng (random_calls s) < 1"
  shows "\<exists>s'. selectRandomWord pool rng shouldReset s = Inr s'"
proof -
  let ?av = "getAvailableWords pool s"
  have n: "0 < length ?av" using ne by simp
  have "0 \<le> \<lfloor>double_times (rng (random_calls s)) (real (length ?av))\<rfloor> \<and>
        \<lfloor>double_times (rng (random_calls s)) (real (length ?av))\<rfloor> < int (length ?av)"
    using double_index_in_range [OF d lo hi n] .
  then show ?thesis using ne unfolding selectRandomWord_def Let_def by (simp add: not_le not_less)
qed

text \<open>
  C3. The words \<open>getAvailableWords\<close> collects are, as (category, word) pairs, exactly the
  pairs of the pool whose word is not in the ledger. With \<open>Math.random()\<close> a double in
  \<open>[0, 1)\<close>, \<open>selectRandomWord\<close> takes the exhausted branch (no draw, nothing selected:
  the state is left as it is, or reset when the prompt is accepted) when that set is empty,
  and otherwise selects a pair of the set, which the exhausted branch never does: the
  rounded product of the draw and the number of eligible words stays below that number.
\<close>

theorem selectRandomWord_eligible:
  assumes "is_double (rng (random_calls s))"
    and "0 \<le> rng (random_calls s)" and "rng (random_calls s) < 1"
  shows "pair_of ` set (getAvailableWords pool s) = spec_eligible pool (usedWords s) \<and>
    (if spec_eligible pool (usedWords s) = {}
     then selectRandomWord pool rng shouldReset s = Inr (if shouldReset then resetGame s else s)
     else \<exists>c w s'. (c, w) \<in> spec_eligible pool (usedWords s) \<and>
            selectRandomWord pool rng shouldReset s = Inr s' \<and>
            currentCategory s' = Some c \<and> currentWord s' = Some w \<and>
            random_calls s < random_calls s' \<and>
            s' \<noteq> (if shouldReset then resetGame s else s))"
proof -
  have e: "pair_of ` set (getAvailableWords pool s) = spec_eligible pool (usedWords s)"
    by (rule eligible_set)
  show ?thesis
  proof (cases "getAvailableWords pool s = []")
    case True
    then have "spec_eligible pool (usedWords s) = {}" using e by simp
    then show ?thesis using e select_exhausted [OF True] by simp
  next
    case False
    then have ne: "spec_eligible pool (usedWords s) \<noteq> {}" using e by auto
    obtain s' where ok: "selectRandomWord pool rng shouldReset s = Inr s'"
      using select_succeeds [of pool s rng shouldReset] False assms by blast
    obtain sel where sel: "sel \<in> set (getAvailableWords pool s)"
      and c: "currentCategory s' = Some (category sel)"
      and w: "currentWord s' = Some (word sel)"
      and r': "random_calls s' = random_calls s + (if category sel = str ''random'' then 1 else 2)"
      using select_fields [OF False ok] by blast
    have r: "random_calls s < random_calls s'" unfolding r' by simp
    have m: "(category sel, word sel) \<in> spec_eligible pool (usedWords s)"
      using sel e unfolding pair_of_def by blast
    have "s' \<noteq> (if shouldReset then resetGame s else s)"
      using r random_calls_resetGame [of s] by auto
    then show ?thesis using e ne m ok c w r by auto
  qed
qed

theorem selectRandomWord_eligible_witness:
  "is_double (rounding_rng (random_calls (mount False []))) \<and>
   0 \<le> rounding_rng (random_calls (mount False [])) \<and>
   rounding_rng (random_calls (mount False [])) < 1 \<and>
   spec_eligible seven_pool (usedWords (mount False [])) \<noteq> {} \<and>
   pair_of ` set (getAvailableWords seven_pool (mount False [])) =
     spec_eligible seven_pool (usedWords (mount False [])) \<and>
   (\<exists>c w s'. (c, w) \<in> spec_eligible seven_pool (usedWords (mount False [])) \<and>
      selectRandomWord seven_pool rounding_rng False (mount False []) = Inr s' \<and>
      currentCategory s' = Some c \<and> currentWord s' = Some w \<and>
      random_calls (mount False []) < random_calls s' \<and> s' \<noteq> mount False []) \<and>
   (\<exists>s'. selectRandomWord seven_pool rounding_rng False (mount False []) = Inr s' \<and>
      currentWord s' = Some (str ''eel''))"
proof -
  have h: "is_double (rounding_rng (random_calls (mount False [])))"
    "0 \<le> rounding_rng (random_calls (mount False []))"
    "rounding_rng (random_calls (mount False [])) < 1"
    by (rule sample_draws_are_doubles)+
  have "(str ''animals'', str ''ant'') \<in> spec_eligible seven_pool (usedWords (mount False []))"
    by (simp add: spec_eligible_def pool_pairs_def seven_pool_def mount_def)
  then have ne: "spec_eligible seven_pool (usedWords (mount False [])) \<noteq> {}" by blast
  have v: "\<exists>s'. selectRandomWord seven_pool rounding_rng False (mount False []) = Inr s' \<and>
      currentWord s' = Some (str ''eel'')"
    by (simp add: sample_defs handler_defs double_defs)
  from selectRandomWord_eligible [where rng = rounding_rng and s = "mount False []"
      and pool = seven_pool and shouldReset = False, OF h] h ne v show ?thesis
    by simp
qed

text \<open>
  C4. For every successful selection among a non-empty eligible list: when the drawn
  category is \<open>random\<close>, All-Play is true and the selection has called \<open>Math.random\<close>
  once (for the index only); otherwise it has called it twice and All-Play is true exactly
  when the second value is below 0.2. With \<open>Math.random()\<close> a double in \<open>[0, 1)\<close> the
  selection does succeed.
\<close>

theorem selectRandomWord_all_play:
  assumes "getAvailableWords pool s \<noteq> []"
  shows "(\<forall>s'. selectRandomWord pool rng shouldReset s = Inr s' \<longrightarrow>
           (\<exists>c. currentCategory s' = Some c \<and>
              (if c = str ''random''
               then isAllPlay s' \<and> random_calls s' = random_calls s + 1
               else isAllPlay s' = (rng (random_calls s + 1) < 0.2) \<and>
                    random_calls s' = random_calls s + 2))) \<and>
         (is_double (rng (random_calls s)) \<and> 0 \<le> rng (random_calls s) \<and>
          rng (random_calls s) < 1 \<longrightarrow>
           (\<exists>s'. selectRandomWord pool rng shouldReset s = Inr s'))"
proof (intro conjI allI impI)
  fix s'
  assume "selectRandomWord pool rng shouldReset s = Inr s'"
  from select_fields [OF assms this] obtain sel :: AvailableWord where
    c: "currentCategory s' = Some (category sel)"
    and a: "isAllPlay s' = (if category sel = str ''random'' then True
                            else rng (random_calls s + 1) < ALL_PLAY_PROBABILITY)"
    and r: "random_calls s' = random_calls s + (if category sel = str ''random'' then 1 else 2)"
    by blast
  show "\<exists>c. currentCategory s' = Some c \<and>
              (if c = str ''random''
               then isAllPlay s' \<and> random_calls s' = random_calls s + 1
               else isAllPlay s' = (rng (random_calls s + 1) < 0.2) \<and>
                    random_calls s' = random_calls s + 2)"
    by (rule exI [of _ "category sel"]) (simp add: c a r ALL_PLAY_PROBABILITY_def)
next
  assume "is_double (rng (random_calls s)) \<and> 0 \<le> rng (random_calls s) \<and>
          rng (random_calls s) < 1"
  then show "\<exists>s'. selectRandomWord pool rng shouldReset s = Inr s'"
    using select_succeeds [of pool s rng shouldReset] assms by blast
qed

theorem selectRandomWord_all_play_witness:
  "getAvailableWords random_pool (mount False []) \<noteq> [] \<and>
   is_double (half_rng (random_calls (mount False []))) \<and>
   0 \<le> half_rng (random_calls (mount False [])) \<and>
   half_rng (random_calls (mount False [])) < 1 \<and>
   (\<exists>s'. selectRandomWord random_pool half_rng False (mount False []) = Inr s' \<and>
      currentCategory s' = Some (str ''random'') \<and> isAllPlay s' \<and> random_calls s' = 1) \<and>
   getAvailableWords sample_pool (mount False []) \<noteq> [] \<and>
   is_double (low_rng (random_calls (mount False []))) \<and>
   0 \<le> low_rng (random_calls (mount False [])) \<and>
   low_rng (random_calls (mount False [])) < 1 \<and>
   (\<exists>s'. selectRandomWord sample_pool low_rng False (mount False []) = Inr s' \<and>
      currentCategory s' = Some (str ''animals'') \<and> isAllPlay s' \<and> random_calls s' = 2)"
proof -
  have a: "getAvailableWords random_pool (mount False []) \<noteq> []"
    by (simp add: sample_defs handler_defs)
  have b: "getAvailableWords sample_pool (mount False []) \<noteq> []"
    by (simp add: sample_defs handler_defs)
  have ha: "is_double (half_rng (random_calls (mount False []))) \<and>
    0 \<le> half_rng (random_calls (mount False [])) \<and>
    half_rng (random_calls (mount False [])) < 1"
    by (simp add: sample_draws_are_doubles)
  have hb: "is_double (low_rng (random_calls (mount False []))) \<and>
    0 \<le> low_rng (random_calls (mount False [])) \<and>
    low_rng (random_calls (mount False [])) < 1"
    by (simp add: sample_draws_are_doubles)
  have c: "currentCategory s' = Some (str ''random'')"
    if "selectRandomWord random_pool half_rng False (mount False []) = Inr s'" for s'
    using that by (auto simp: sample_defs handler_defs double_defs)
  have d: "currentCategory s' = Some (str ''animals'')"
    if "selectRandomWord sample_pool low_rng False (mount False []) = Inr s'" for s'
    using that by (auto simp: sample_defs handler_defs double_defs)
  have l: "low_rng (random_calls (mount False []) + 1) < 0.2" by (simp add: low_rng_def)
  have r: "random_calls (mount False []) = 0" by (simp add: mount_def)
  have n: "str ''animals'' \<noteq> str ''random''" by (simp add: str_def)
  note ta = selectRandomWord_all_play [where pool = random_pool and s = "mount False []"
      and rng = half_rng and shouldReset = False, OF a]
  note tb = selectRandomWord_all_play [where pool = sample_pool and s = "mount False []"
      and rng = low_rng and shouldReset = False, OF b]
  obtain sa where sa: "selectRandomWord random_pool half_rng False (mount False []) = Inr sa"
    using ta ha by blast
  obtain sb where sb: "selectRandomWord sample_pool low_rng False (mount False []) = Inr sb"
    using tb hb by blast
  have 1: "\<exists>s'. selectRandomWord random_pool half_rng False (mount False []) = Inr s' \<and>
      currentCategory s' = Some (str ''random'') \<and> isAllPlay s' \<and> random_calls s' = 1"
    using ta sa c [OF sa] unfolding r by (auto split: if_splits)
  have 2: "\<exists>s'. selectRandomWord sample_pool low_rng False (mount False []) = Inr s' \<and>
      currentCategory s' = Some (str ''animals'') \<and> isAllPlay s' \<and> random_calls s' = 2"
    using tb sb d [OF sb] l n unfolding r by (auto split: if_splits)
  from a b ha hb 1 2 show ?thesis by simp
qed

text \<open>
  C5. When some word is eligible, every successful selection is one step after which
  Category and Word are those of one element of the eligible list, Time-Remaining is the
  current Duration (which is kept), Timer Running and Word Revealed are false, the ledger is
  the old ledger followed by the drawn word, and storage holds the serialisation of the new
  ledger. With \<open>Math.random()\<close> a double in \<open>[0, 1)\<close> the selection does succeed.
\<close>

theorem selectRandomWord_success_state:
  assumes "getAvailableWords pool s \<noteq> []"
  shows "(\<forall>s'. selectRandomWord pool rng shouldReset s = Inr s' \<longrightarrow>
           (\<exists>sel. sel \<in> set (getAvailableWords pool s) \<and>
              currentCategory s' = Some (category sel) \<and> currentWord s' = Some (word sel) \<and>
              timeRemaining s' = timerDuration s \<and> timerDuration s' = timerDuration s \<and>
              \<not> timerRunning s' \<and> \<not> wordRevealed s' \<and>
              usedWords s' = usedWords s @ [word sel] \<and> word sel \<in> set (usedWords s') \<and>
              storage s' = Some (JSON_stringify (usedWords s')))) \<and>
         (is_double (rng (random_calls s)) \<and> 0 \<le> rng (random_calls s) \<and>
          rng (random_calls s) < 1 \<longrightarrow>
           (\<exists>s'. selectRandomWord pool rng shouldReset s = Inr s'))"
proof (intro conjI allI impI)
  fix s'
  assume "selectRandomWord pool rng shouldReset s = Inr s'"
  from select_fields [OF assms this] obtain sel where
    f: "sel \<in> set (getAvailableWords pool s)"
      "currentCategory s' = Some (category sel)" "currentWord s' = Some (word sel)"
      "timeRemaining s' = timerDuration s" "timerDuration s' = timerDuration s"
      "\<not> timerRunning s'" "\<not> wordRevealed s'"
      "usedWords s' = usedWords s @ [word sel]"
      "storage s' = Some (JSON_stringify (usedWords s @ [word sel]))"
    by blast
  show "\<exists>sel. sel \<in> set (getAvailableWords pool s) \<and>
              currentCategory s' = Some (category sel) \<and> currentWord s' = Some (word sel) \<and>
              timeRemaining s' = timerDuration s \<and> timerDuration s' = timerDuration s \<and>
              \<not> timerRunning s' \<and> \<not> wordRevealed s' \<and>
              usedWords s' = usedWords s @ [word sel] \<and> word sel \<in> set (usedWords s') \<and>
              storage s' = Some (JSON_stringify (usedWords s'))"
    by (rule exI [of _ sel]) (simp add: f)
next
  assume "is_double (rng (random_calls s)) \<and> 0 \<le> rng (random_calls s) \<and>
          rng (random_calls s) < 1"
  then show "\<exists>s'. selectRandomWord pool rng shouldReset s = Inr s'"
    using select_succeeds [of pool s rng shouldReset] assms by blast
qed

theorem selectRandomWord_success_state_witness:
  "getAvailableWords sample_pool (mount False []) \<noteq> [] \<and>
   is_double (half_rng (random_calls (mount False []))) \<and>
   0 \<le> half_rng (random_calls (mount False [])) \<and>
   half_rng (random_calls (mount False [])) < 1 \<and>
   selectRandomWord sample_pool half_rng False (mount False []) = Inr ready_state \<and>
   (\<exists>sel. sel \<in> set (getAvailableWords sample_pool (mount False [])) \<and>
           currentCategory ready_state = Some (category sel) \<and>
           currentWord ready_state = Some (word sel) \<and>
           timeRemaining ready_state = timerDuration (mount False []) \<and>
           timerDuration ready_state = timerDuration (mount False []) \<and>
           \<not> timerRunning ready_state \<and> \<not> wordRevealed ready_state \<and>
           usedWords ready_state = usedWords (mount False []) @ [word sel] \<and>
           word sel \<in> set (usedWords ready_state) \<and>
           storage ready_state = Some (JSON_stringify (usedWords ready_state)))"
proof -
  have a: "getAvailableWords sample_pool (mount False []) \<noteq> []"
    by (simp add: sample_defs handler_defs)
  have h: "is_double (half_rng (random_calls (mount False []))) \<and>
    0 \<le> half_rng (random_calls (mount False [])) \<and>
    half_rng (random_calls (mount False [])) < 1"
    by (simp add: sample_draws_are_doubles)
  from selectRandomWord_success_state [where pool = sample_pool and s = "mount False []"
      and rng = half_rng and shouldReset = False, OF a] a h ready_state_reached
  show ?thesis by simp
qed

text \<open>
  C10. When no word is eligible and the reset prompt is declined, \<open>selectRandomWord\<close>
  returns the state it was given: the session fields, the ledger, storage and everything
  else are unchanged.
\<close>

theorem selectRandomWord_exhausted_declined_unchanged:
  assumes "getAvailableWords pool s = []"
  shows "selectRandomWord pool rng False s = Inr s"
  using assms by (simp add: selectRandomWord_def)

theorem selectRandomWord_exhausted_declined_unchanged_witness:
  "getAvailableWords sample_pool used_up_state = [] \<and>
   selectRandomWord sample_pool half_rng False used_up_state = Inr used_up_state"
proof -
  have a: "getAvailableWords sample_pool used_up_state = []"
    by (simp add: sample_defs handler_defs)
  from selectRandomWord_exhausted_declined_unchanged [OF a] a show ?thesis by simp
qed

section \<open>Properties of the timer\<close>

lemma timer_inv_mount: "timer_inv (mount dev ws)"
  by (simp add: timer_inv_def mount_def TIMER_DURATION_def)

lemma timer_inv_select:
  "timer_inv s \<Longrightarrow> selectRandomWord pool rng b s = Inr s' \<Longrightarrow> timer_inv s'"
  unfolding selectRandomWord_def Let_def timer_inv_def resetGame_def
  by (auto simp: timer_effect_def persist_effect_def split: if_splits)

lemma timer_inv_dispatch:
  assumes "timer_inv s" and "dispatch pool rng a s = Some s'"
  shows "timer_inv s'"
proof (cases a)
  case (SelectWord b)
  then show ?thesis using assms timer_inv_select by (auto split: sum.splits)
next
  case (ChangeDuration d)
  then show ?thesis using assms
    by (auto simp: timer_inv_def changeTimerDuration_def timer_effect_def TIMER_OPTIONS_def
        split: if_splits)
next
  case Tick
  then show ?thesis using assms
    by (auto simp: timer_inv_def tick_def timer_effect_def split: if_splits)
qed (use assms in \<open>auto simp: timer_inv_def startTimer_def stopTimer_def restartTimer_def
      resetGame_def handleWordBoxInteraction_def handleWordBoxRelease_def
      timer_effect_def persist_effect_def split: if_splits\<close>)

lemma timer_inv_run:
  "timer_inv s \<Longrightarrow> run pool rng as s = Some s' \<Longrightarrow> timer_inv s'"
proof (induction as arbitrary: s)
  case Nil
  then show ?case by simp
next
  case (Cons a as)
  then show ?case by (auto split: option.splits dest: timer_inv_dispatch)
qed

text \<open>
  C6. In every state reached from the mounted component by a sequence of intents (select,
  start, stop, restart, a duration of the settings dialog, tick, reset, reveal, release), in
  a development or a production build, for any ledger read at start, any pool and any random
  source, Time-Remaining is between 0 and the Duration, and the interval's callback can fire
  exactly when Timer Running is true and Time-Remaining is positive.
\<close>

theorem timer_invariant_reachable:
  assumes "run pool rng as (mount dev ws) = Some s"
  shows "0 \<le> timeRemaining s \<and> timeRemaining s \<le> timerDuration s \<and>
     (dispatch pool rng Tick s \<noteq> None) = (timerRunning s \<and> 0 < timeRemaining s)"
  using timer_inv_run [OF timer_inv_mount assms] by (simp add: timer_inv_def)

theorem timer_invariant_reachable_witness:
  "run sample_pool half_rng [SelectWord False, Start, Tick, Stop] (mount False [])
     = Some (ready_state\<lparr>timeRemaining := 59\<rparr>) \<and>
   0 \<le> timeRemaining (ready_state\<lparr>timeRemaining := 59\<rparr>) \<and>
   timeRemaining (ready_state\<lparr>timeRemaining := 59\<rparr>)
     \<le> timerDuration (ready_state\<lparr>timeRemaining := 59\<rparr>) \<and>
   (dispatch sample_pool half_rng Tick (ready_state\<lparr>timeRemaining := 59\<rparr>) \<noteq> None) =
     (timerRunning (ready_state\<lparr>timeRemaining := 59\<rparr>) \<and>
      0 < timeRemaining (ready_state\<lparr>timeRemaining := 59\<rparr>))"
proof -
  have r: "run sample_pool half_rng [SelectWord False, Start, Tick, Stop] (mount False [])
     = Some (ready_state\<lparr>timeRemaining := 59\<rparr>)"
    by (simp add: ready_state_reached) (simp add: sample_defs handler_defs)
  from timer_invariant_reachable [OF r] r show ?thesis by simp
qed

text \<open>
  What one firing of the callback does in a running state, in either build: Time-Remaining
  goes down by exactly 1; if it reaches 0 the timer stops, no interval stays live and
  \<open>playTimeUpAlert\<close> and \<open>notify\<close> have each been called once for each run of the
  updater; otherwise the timer keeps running and neither is called.
\<close>

lemma tick_in_running_state:
  assumes "timerRunning s" and "0 < timeRemaining s"
  shows "timeRemaining (tick s) = timeRemaining s - 1"
    and "strictDev (tick s) = strictDev s"
    and "if timeRemaining (tick s) = 0
         then \<not> timerRunning (tick s) \<and> \<not> interval (tick s) \<and>
              alerts (tick s) = alerts s + (if strictDev s then 2 else 1) \<and>
              toasts (tick s) = toasts s + (if strictDev s then 2 else 1)
         else timerRunning (tick s) \<and> interval (tick s) \<and>
              alerts (tick s) = alerts s \<and> toasts (tick s) = toasts s"
  using assms by (simp_all add: tick_def timer_effect_def)

lemma countdown:
  "timerRunning s \<Longrightarrow> interval s \<Longrightarrow> timeRemaining s = int (Suc n) \<Longrightarrow>
     \<exists>s'. run_ticks (Suc n) s = Some s' \<and> timeRemaining s' = 0 \<and> \<not> timerRunning s' \<and>
          \<not> interval s' \<and> alerts s' = alerts s + (if strictDev s then 2 else 1)"
proof (induction n arbitrary: s)
  case 0
  then show ?case by (simp add: tick_def timer_effect_def)
next
  case (Suc n)
  have "timerRunning (tick s)" "interval (tick s)" "timeRemaining (tick s) = int (Suc n)"
    "alerts (tick s) = alerts s" "strictDev (tick s) = strictDev s"
    using Suc.prems by (simp_all add: tick_def timer_effect_def)
  from Suc.IH [OF this(1-3)] this(4,5) Suc.prems(2) show ?case by simp
qed

text \<open>\<open>startTimer\<close> and then as many firings as the Duration has seconds: each firing finds
  a live interval, and the one expiry alerts once in a production build and twice in a
  development build.\<close>

lemma start_then_duration_ticks:
  assumes "truthy (currentWord s)" and "\<not> timerRunning s" and "0 < timerDuration s"
    and "timeRemaining s = timerDuration s"
  shows "\<exists>s'. run_ticks (nat (timerDuration s)) (startTimer s) = Some s' \<and>
            timeRemaining s' = 0 \<and> \<not> timerRunning s' \<and> \<not> interval s' \<and>
            alerts s' = alerts s + (if strictDev s then 2 else 1)"
proof -
  obtain n where n: "nat (timerDuration s) = Suc n"
    using assms(3) by (cases "nat (timerDuration s)") auto
  then have d: "timerDuration s = int (Suc n)" using assms(3) by linarith
  have "timerRunning (startTimer s)" "interval (startTimer s)"
    "timeRemaining (startTimer s) = int (Suc n)" "alerts (startTimer s) = alerts s"
    "strictDev (startTimer s) = strictDev s"
    using assms d by (simp_all add: startTimer_def timer_effect_def)
  from countdown [OF this(1-3)] this(4,5) n show ?thesis by simp
qed

text \<open>
  C7 fails on the code in a development build. In the state reached 59 seconds after the
  timer of the first word was started, the timer is running with Time-Remaining 1; the next
  firing of the callback brings Time-Remaining to 0 and stops the timer, and for this one
  expiry \<open>playTimeUpAlert\<close> and \<open>notify\<close> are each called twice, not once.
\<close>

theorem tick_strict_mode_alerts_twice:
  "strictDev dev_last_second \<and> timerRunning dev_last_second \<and>
   timeRemaining dev_last_second = 1 \<and>
   timeRemaining (tick dev_last_second) = 0 \<and> \<not> timerRunning (tick dev_last_second) \<and>
   alerts (tick dev_last_second) = alerts dev_last_second + 2 \<and>
   toasts (tick dev_last_second) = toasts dev_last_second + 2"
  by (simp add: sample_defs handler_defs)

section \<open>Loading the ledger\<close>

lemma hex_split:
  fixes x :: nat
  assumes "x < 65536"
  shows "((x div 4096 mod 16 * 16 + x div 256 mod 16) * 16 + x div 16 mod 16) * 16 + x mod 16 = x"
proof -
  have d2: "x div 256 = x div 16 div 16" using div_mult2_eq [of x 16 16] by simp
  have d3: "x div 4096 = x div 256 div 16" using div_mult2_eq [of x 256 16] by simp
  have "x div 4096 < 16" using assms by simp
  then have "x div 4096 mod 16 = x div 4096" by simp
  moreover have "x div 4096 * 16 + x div 256 mod 16 = x div 256"
    unfolding d3 by simp
  moreover have "x div 256 * 16 + x div 16 mod 16 = x div 16"
    unfolding d2 by simp
  moreover have "x div 16 * 16 + x mod 16 = x" by simp
  ultimately show ?thesis by simp
qed

lemma unat_hex_digit:
  assumes "n < 16"
  shows "unat (hex_digit n) = (if n < 10 then 48 + n else 87 + n)"
proof -
  have "unat (0x30 + of_nat n :: 16 word) = 48 + n"
    using assms by (simp add: unat_word_ariths unat_of_nat)
  moreover have "unat (0x61 + of_nat (n - 10) :: 16 word) = 87 + n" if "10 \<le> n"
    using assms that by (simp add: unat_word_ariths unat_of_nat)
  ultimately show ?thesis by (simp add: hex_digit_def)
qed

lemma hex_value_hex_digit: "n < 16 \<Longrightarrow> hex_value (hex_digit n) = Some n"
  by (simp add: hex_value_def is_digit_def word_le_nat_alt unat_hex_digit)

lemma hex4_UnicodeEscape:
  "hex4 (hex_digit (unat c div 4096 mod 16)) (hex_digit (unat c div 256 mod 16))
        (hex_digit (unat c div 16 mod 16)) (hex_digit (unat c mod 16)) = Some c"
proof -
  have lt: "unat c < 65536" using unsigned_less [of c] by simp
  have "hex4 (hex_digit (unat c div 4096 mod 16)) (hex_digit (unat c div 256 mod 16))
        (hex_digit (unat c div 16 mod 16)) (hex_digit (unat c mod 16))
      = Some (of_nat (((unat c div 4096 mod 16 * 16 + unat c div 256 mod 16) * 16
                        + unat c div 16 mod 16) * 16 + unat c mod 16))"
    unfolding hex4_def by (simp add: hex_value_hex_digit del: of_nat_add of_nat_mult)
  also have "\<dots> = Some (of_nat (unat c))"
    by (simp only: hex_split [OF lt])
  finally show ?thesis by simp
qed

lemma lex_string_UnicodeEscape:
  "lex_string (UnicodeEscape c @ rest) = map_option (\<lambda>(s, r). (c # s, r)) (lex_string rest)"
  by (simp add: UnicodeEscape_def hex4_UnicodeEscape)

lemma lex_string_quote_unit:
  "lex_string (quote_unit c @ rest) = map_option (\<lambda>(s, r). (c # s, r)) (lex_string rest)"
  unfolding quote_unit_def
  by (auto simp: lex_string_UnicodeEscape escape_char_def)

lemma surrogate_plain:
  assumes "is_leading_surrogate c \<or> is_trailing_surrogate c"
  shows "c \<noteq> 0x22" "c \<noteq> 0x5C" "\<not> c < 0x20"
  using assms
  by (auto simp: is_leading_surrogate_def is_trailing_surrogate_def word_le_nat_alt
      word_less_nat_alt)

lemma lex_string_surrogate:
  "is_leading_surrogate c \<or> is_trailing_surrogate c \<Longrightarrow>
     lex_string (c # rest) = map_option (\<lambda>(s, r). (c # s, r)) (lex_string rest)"
  using surrogate_plain [of c] by simp

lemma lex_string_quote_units:
  "lex_string (quote_units s @ 0x22 # rest) = Some (s, rest)"
proof (induction s rule: quote_units.induct)
  case 1
  show ?case by simp
next
  case (2 c)
  show ?case by (simp add: lex_string_quote_unit)
next
  case (3 c d cs)
  then show ?case
    by (simp add: lex_string_quote_unit lex_string_surrogate del: lex_string.simps)
qed

lemma lex_QuoteJSONString:
  "lex (QuoteJSONString w @ rest) = map_option (Cons (STRING w)) (lex rest)"
  by (simp add: QuoteJSONString_def lex_string_quote_units is_ws_def)

lemma lex_join:
  "lex (join (str '','') (map QuoteJSONString ws) @ str '']'') = Some (separated ws @ [RBRACK])"
proof (induction ws rule: separated.induct)
  case 1
  show ?case by (simp add: str_def is_ws_def)
next
  case (2 w)
  show ?case by (simp add: lex_QuoteJSONString str_def is_ws_def)
next
  case (3 w v ws)
  then show ?case by (simp add: lex_QuoteJSONString str_def is_ws_def)
qed

lemma parse_separated:
  "ws \<noteq> [] \<Longrightarrow> parse_elements (separated ws @ RBRACK # rest) = Some (map JString ws, rest)"
proof (induction ws rule: separated.induct)
  case 1
  then show ?case by simp
next
  case (2 w)
  show ?case by simp
next
  case (3 w v ws)
  then show ?case by simp
qed

lemma JSON_roundtrip: "JSON_parse (JSON_stringify ws) = Inr (JArray (map JString ws))"
proof (cases ws)
  case Nil
  then show ?thesis by (simp add: JSON_parse_def JSON_stringify_def str_def is_ws_def)
next
  case (Cons w vs)
  have l: "lex (JSON_stringify ws) = Some (LBRACK # separated ws @ [RBRACK])"
    using lex_join [of ws] by (simp add: JSON_stringify_def str_def is_ws_def)
  have "separated ws \<noteq> []" using Cons by (cases vs) simp_all
  then obtain t ts where t: "separated ws = t # ts" "t \<noteq> RBRACK"
    using Cons by (cases vs) auto
  have "parse_value (LBRACK # separated ws @ [RBRACK]) = Some (JArray (map JString ws), [])"
    using parse_separated [of ws "[]"] Cons t by (cases t) simp_all
  then show ?thesis by (simp add: JSON_parse_def l)
qed

text \<open>
  C2, as the code has it. The initializer of \<open>usedWords\<close> (lines 27-30) returns the empty
  ledger when the key is missing or holds the empty string. On any other stored text it
  returns what \<open>JSON.parse\<close> returns, with no handler around the call: the words, when
  the text is a ledger as the component serialises it, and the \<open>SyntaxError\<close> itself when
  the text is malformed.
\<close>

theorem usedWords_initializer_load:
  "usedWords_initializer None = Inr (JArray []) \<and>
   usedWords_initializer (Some []) = Inr (JArray []) \<and>
   usedWords_initializer (Some (JSON_stringify ws)) = Inr (JArray (map JString ws)) \<and>
   usedWords_initializer (Some (c # cs)) = JSON_parse (c # cs)"
proof -
  have "JSON_stringify ws \<noteq> []" by (simp add: JSON_stringify_def str_def)
  then show ?thesis by (simp add: usedWords_initializer_def JSON_roundtrip)
qed

text \<open>
  C2 as stated fails: with the malformed text \<open>not json\<close> stored under the key, the load
  does not return the empty ledger, it fails with \<open>SyntaxError\<close>.
\<close>

theorem usedWords_initializer_malformed_fails:
  "usedWords_initializer (Some (str ''not json'')) = Inl SyntaxError \<and>
   usedWords_initializer (Some (str ''not json'')) \<noteq> Inr (JArray [])"
  by (simp add: usedWords_initializer_def JSON_parse_def str_def is_ws_def is_digit_def
      strip_prefix_def)

end
